theory Spec2Isabelle
  imports Main
begin

section \<open>JavaScript values handled by the host dispatcher\<close>

text \<open>
  The embedding follows \<^verbatim>\<open>src/server.ts\<close>. The objects the code uses as
  dictionaries (\<^verbatim>\<open>registrations\<close>, \<^verbatim>\<open>this.subscriptions\<close>) are plain
  objects: a lookup finds an own key first and otherwise a member inherited from
  \<^verbatim>\<open>Object.prototype\<close>, as does \<^verbatim>\<open>target[propKey]\<close>. A thrown
  \<^verbatim>\<open>new Error(msg)\<close> is the value \<open>JsError ''Error'' msg\<close>; \<open>EngineError name\<close> is
  an error of that name raised by the engine, whose message text is left open. A member that
  passes \<^verbatim>\<open>isObservable\<close> is taken to be an rxjs Observable, whose
  \<^verbatim>\<open>subscribe\<close> returns a Subscription. \<open>JNum\<close> carries an integer-valued number
  as a payload; no arithmetic on numbers is modelled.
\<close>

datatype prim = JUndefined | JNull | JBool bool | JNum int | JStr string

datatype jserror = JsError string string | EngineError string

datatype promise = Resolved prim | Rejected jserror | Unsettled

datatype notification = NNext prim | NError jserror | NComplete

text \<open>
  An rxjs Observable is represented by the notifications it delivers synchronously while
  \<^verbatim>\<open>subscribe\<close> runs (\<^verbatim>\<open>of(1, 2, 3)\<close> delivers three values and completes,
  \<^verbatim>\<open>interval(100)\<close> delivers nothing at that moment). Later notifications arrive as
  events of the world below.
\<close>

datatype observable = Observable "notification list"

text \<open>
  The receiver (\<^verbatim>\<open>this\<close>) a function is called with: \<^verbatim>\<open>undefined\<close> for a
  plain call \<^verbatim>\<open>func(...args)\<close> in strict code, or the data members of the object the
  method was called on.
\<close>

datatype receiver = ThisUndefined | ThisObject "string \<Rightarrow> prim option"

text \<open>
  \<open>BuiltinV name\<close> is the function \<^verbatim>\<open>Object.prototype[name]\<close>; \<open>ObjV\<close> is
  any other object, neither callable nor with a \<^verbatim>\<open>subscribe\<close> member.
\<close>

datatype jsvalue =
    Prim prim
  | PromiseV promise
  | ObsV observable
  | FunV "receiver \<Rightarrow> prim list \<Rightarrow> jserror + jsvalue"
  | BuiltinV string
  | ObjV

text \<open>
  The names every ordinary object inherits from \<^verbatim>\<open>Object.prototype\<close>, and what a
  lookup \<^verbatim>\<open>obj[key]\<close> on a dictionary object gives: the own value, else an
  inherited member (truthy), else \<^verbatim>\<open>undefined\<close>; \<open>Falsy\<close> also stands for an
  own \<^verbatim>\<open>null\<close>.
\<close>

definition object_prototype_names :: "string list" where
  "object_prototype_names =
     [''constructor'', ''__defineGetter__'', ''__defineSetter__'', ''hasOwnProperty'',
      ''__lookupGetter__'', ''__lookupSetter__'', ''isPrototypeOf'', ''propertyIsEnumerable'',
      ''toString'', ''valueOf'', ''__proto__'', ''toLocaleString'']"

definition inherited :: "string \<Rightarrow> bool" where
  "inherited key \<longleftrightarrow> key \<in> set object_prototype_names"

datatype 'a slot = Held 'a | Builtin | Falsy

type_synonym target = "string \<Rightarrow> jsvalue option"

datatype property_type = Value | ValueStream | Function | FunctionStream

record descriptor =
  channel :: string
  properties :: "(string \<times> property_type) list"

datatype request =
    Get string
  | Apply string "prim list"
  | Subscribe string "prim list option" string
  | Unsubscribe string
  | Other string

datatype serialized = Serialized jserror

datatype response =
    Result jsvalue
  | Error serialized
  | Next prim
  | Complete

datatype outcome = Fulfilled jsvalue | Failed jserror | Hangs

section \<open>The process state\<close>

text \<open>
  Handlers and rxjs Subscription objects are shared by reference (the registration table
  and the transport listener both hold the handler; the subscription table and the stream
  both hold the Subscription), so both live in stores indexed by address.
  \<open>listeners\<close> holds, per transport and channel, the handler each installed listener
  closure captured; \<open>once_destroyed\<close> holds, per sender, the handler and subscription id
  captured by each pending \<^verbatim>\<open>once('destroyed', ...)\<close> closure; \<open>outbox\<close> is the
  sequence of \<^verbatim>\<open>sender.send(address, message)\<close> calls made so far.
\<close>

record subscription =
  sub_closed :: bool
  unsubscribe_calls :: nat
  sub_sender :: nat
  sub_address :: string

record handler =
  target :: target
  subscriptions :: "(string \<times> nat) list"

record world =
  registrations :: "string \<Rightarrow> nat option option"
  handlers :: "nat \<Rightarrow> handler"
  next_handler :: nat
  substore :: "nat \<Rightarrow> subscription"
  next_sub :: nat
  listeners :: "nat \<Rightarrow> string \<Rightarrow> nat list"
  once_destroyed :: "nat \<Rightarrow> (nat \<times> string) list"
  outbox :: "(nat \<times> string \<times> response) list"

datatype unregister_fn = UnregisterFn string nat

datatype event =
    Register nat target descriptor
  | CallUnregister unregister_fn
  | IpcMessage nat string nat request string
  | StreamEmits nat notification
  | SenderDestroyed nat

definition init_world :: world where
  "init_world =
     \<lparr>registrations = (\<lambda>_. None),
      handlers = (\<lambda>_. \<lparr>target = (\<lambda>_. None), subscriptions = []\<rparr>),
      next_handler = 0,
      substore = (\<lambda>_. \<lparr>sub_closed = True, unsubscribe_calls = 0, sub_sender = 0, sub_address = []\<rparr>),
      next_sub = 0,
      listeners = (\<lambda>_ _. []),
      once_destroyed = (\<lambda>_. []),
      outbox = []\<rparr>"

section \<open>Library behaviour the dispatcher relies on\<close>

definition Errio_stringify :: "jserror \<Rightarrow> serialized" where
  "Errio_stringify e = Serialized e"

definition send :: "nat \<Rightarrow> string \<Rightarrow> response \<Rightarrow> world \<Rightarrow> world" where
  "send sender address msg w = w\<lparr>outbox := outbox w @ [(sender, address, msg)]\<rparr>"

text \<open>The three callbacks handed to \<^verbatim>\<open>obs.subscribe\<close> in \<^verbatim>\<open>handleSubscribe\<close>.\<close>

fun observer :: "nat \<Rightarrow> string \<Rightarrow> notification \<Rightarrow> world \<Rightarrow> world" where
  "observer sender subscriptionId (NNext v) w = send sender subscriptionId (Next v) w"
| "observer sender subscriptionId (NError e) w =
     send sender subscriptionId (Error (Errio_stringify e)) w"
| "observer sender subscriptionId NComplete w = send sender subscriptionId Complete w"

fun terminal :: "notification \<Rightarrow> bool" where
  "terminal (NNext v) = False"
| "terminal (NError e) = True"
| "terminal NComplete = True"

text \<open>
  rxjs: a notification reaches the callbacks only while the Subscription is open; an
  error or a completion closes it.
\<close>

definition rx_notify :: "nat \<Rightarrow> notification \<Rightarrow> world \<Rightarrow> world" where
  "rx_notify r n w =
     (let s = substore w r in
      if sub_closed s then w
      else let w1 = observer (sub_sender s) (sub_address s) n w in
        if terminal n
        then w1\<lparr>substore := (substore w1)(r := s\<lparr>sub_closed := True\<rparr>)\<rparr>
        else w1)"

text \<open>rxjs: \<^verbatim>\<open>obs.subscribe(next, error, complete)\<close> returns a new Subscription.\<close>

fun emissions :: "jsvalue \<Rightarrow> notification list" where
  "emissions (ObsV (Observable initial)) = initial"
| "emissions v = []"

definition rx_subscribe :: "jsvalue \<Rightarrow> nat \<Rightarrow> string \<Rightarrow> world \<Rightarrow> nat \<times> world" where
  "rx_subscribe obs sender subscriptionId w =
     (let r = next_sub w;
          w1 = w\<lparr>substore := (substore w)
                     (r := \<lparr>sub_closed = False, unsubscribe_calls = 0,
                            sub_sender = sender, sub_address = subscriptionId\<rparr>),
                 next_sub := Suc r\<rparr>
      in (r, fold (rx_notify r) (emissions obs) w1))"

text \<open>rxjs: \<^verbatim>\<open>subscription.unsubscribe()\<close>.\<close>

definition rx_unsubscribe :: "nat \<Rightarrow> world \<Rightarrow> world" where
  "rx_unsubscribe r w =
     w\<lparr>substore := (substore w)
          (r := (substore w r)\<lparr>sub_closed := True,
                               unsubscribe_calls := Suc (unsubscribe_calls (substore w r))\<rparr>)\<rparr>"

section \<open>server.ts\<close>

definition member :: "target \<Rightarrow> string \<Rightarrow> jsvalue" where
  "member t propKey =
     (case t propKey of
        Some v \<Rightarrow> v
      | None \<Rightarrow>
          if propKey = ''__proto__'' then ObjV
          else if inherited propKey then BuiltinV propKey
          else Prim JUndefined)"

fun isFunction :: "jsvalue \<Rightarrow> bool" where
  "isFunction (FunV f) = True"
| "isFunction (BuiltinV name) = True"
| "isFunction v = False"

fun isObservable :: "jsvalue \<Rightarrow> bool" where
  "isObservable (ObsV obs) = True"
| "isObservable v = False"

text \<open>
  A function of \<^verbatim>\<open>Object.prototype\<close> called without a receiver:
  \<^verbatim>\<open>Object(...)\<close> returns an object, \<^verbatim>\<open>toString\<close> names the undefined
  receiver, \<^verbatim>\<open>isPrototypeOf\<close> answers false for an argument that is not an object
  before it looks at the receiver, and the others raise a TypeError on the receiver.
\<close>

definition object_prototype_call :: "string \<Rightarrow> prim list \<Rightarrow> jserror + jsvalue" where
  "object_prototype_call name args =
     (if name = ''constructor'' then Inr ObjV
      else if name = ''toString'' then Inr (Prim (JStr ''[object Undefined]''))
      else if name = ''isPrototypeOf'' then Inr (Prim (JBool False))
      else Inl (EngineError ''TypeError''))"

text \<open>A plain call \<^verbatim>\<open>func(...args)\<close>: the receiver is \<^verbatim>\<open>undefined\<close>.\<close>

fun call :: "jsvalue \<Rightarrow> prim list \<Rightarrow> jserror + jsvalue" where
  "call (FunV f) args = f ThisUndefined args"
| "call (BuiltinV name) args = object_prototype_call name args"
| "call v args = Inl (JsError ''TypeError'' ''func is not a function'')"

text \<open>What an \<^verbatim>\<open>async\<close> function's promise settles to, given what its body did.\<close>

fun settle :: "jserror + jsvalue \<Rightarrow> outcome" where
  "settle (Inl e) = Failed e"
| "settle (Inr (PromiseV (Resolved p))) = Fulfilled (Prim p)"
| "settle (Inr (PromiseV (Rejected e))) = Failed e"
| "settle (Inr (PromiseV Unsettled)) = Hangs"
| "settle (Inr v) = Fulfilled v"

definition registered :: "world \<Rightarrow> string \<Rightarrow> nat slot" where
  "registered w ch =
     (case registrations w ch of
        Some (Some server) \<Rightarrow> Held server
      | Some None \<Rightarrow> Falsy
      | None \<Rightarrow> if inherited ch then Builtin else Falsy)"

definition subscription_at :: "handler \<Rightarrow> string \<Rightarrow> nat slot" where
  "subscription_at table subscriptionId =
     (case map_of (subscriptions table) subscriptionId of
        Some r \<Rightarrow> Held r
      | None \<Rightarrow> if inherited subscriptionId then Builtin else Falsy)"

definition handleGet :: "nat \<Rightarrow> string \<Rightarrow> world \<Rightarrow> (jserror + jsvalue) \<times> world" where
  "handleGet h propKey w = (Inr (member (target (handlers w h)) propKey), w)"

definition handleApply :: "nat \<Rightarrow> string \<Rightarrow> prim list \<Rightarrow> world \<Rightarrow> (jserror + jsvalue) \<times> world" where
  "handleApply h propKey args w =
     (let func = member (target (handlers w h)) propKey in
      if \<not> isFunction func
      then (Inl (JsError ''Error'' (''Property ['' @ propKey @ ''] is not a function'')), w)
      else (call func args, w))"

definition doUnsubscribe :: "nat \<Rightarrow> string \<Rightarrow> world \<Rightarrow> (jserror + unit) \<times> world" where
  "doUnsubscribe h subscriptionId w =
     (case subscription_at (handlers w h) subscriptionId of
        Held r \<Rightarrow>
          let w1 = rx_unsubscribe r w;
              hd = handlers w1 h
          in (Inr (),
              w1\<lparr>handlers := (handlers w1)
                   (h := hd\<lparr>subscriptions :=
                              filter (\<lambda>kv. fst kv \<noteq> subscriptionId) (subscriptions hd)\<rparr>)\<rparr>)
      | Builtin \<Rightarrow>
          (Inl (JsError ''TypeError'' ''subscription.unsubscribe is not a function''), w)
      | Falsy \<Rightarrow> (Inr (), w))"

definition handleSubscribe ::
  "nat \<Rightarrow> string \<Rightarrow> prim list option \<Rightarrow> string \<Rightarrow> nat \<Rightarrow> world \<Rightarrow> (jserror + jsvalue) \<times> world" where
  "handleSubscribe h propKey args subscriptionId sender w =
     (if subscription_at (handlers w h) subscriptionId \<noteq> Falsy
      then (Inl (JsError ''Error''
                  (''A subscription with Id ['' @ subscriptionId @ ''] already exists'')), w)
      else let obs = member (target (handlers w h)) propKey in
        if \<not> isObservable obs
        then (Inl (JsError ''Error'' (''Property ['' @ propKey @ ''] is not an observable'')), w)
        else case rx_subscribe obs sender subscriptionId w of (r, w1) \<Rightarrow>
          let hd = handlers w1 h;
              w2 = w1\<lparr>handlers := (handlers w1)
                        (h := hd\<lparr>subscriptions := subscriptions hd @ [(subscriptionId, r)]\<rparr>)\<rparr>;
              w3 = w2\<lparr>once_destroyed := (once_destroyed w2)
                        (sender := once_destroyed w2 sender @ [(h, subscriptionId)])\<rparr>
          in (Inr (Prim JUndefined), w3))"

definition handleUnsubscribe :: "nat \<Rightarrow> string \<Rightarrow> world \<Rightarrow> (jserror + jsvalue) \<times> world" where
  "handleUnsubscribe h subscriptionId w =
     (if subscription_at (handlers w h) subscriptionId = Falsy
      then (Inl (JsError ''Error''
                  (''Subscription with Id ['' @ subscriptionId @ ''] does not exist'')), w)
      else case doUnsubscribe h subscriptionId w of
             (Inl error, w') \<Rightarrow> (Inl error, w')
           | (Inr u, w') \<Rightarrow> (Inr (Prim JUndefined), w'))"

fun handleRequest :: "nat \<Rightarrow> request \<Rightarrow> nat \<Rightarrow> world \<Rightarrow> outcome \<times> world" where
  "handleRequest h (Get propKey) sender w =
     (case handleGet h propKey w of (r, w') \<Rightarrow> (settle r, w'))"
| "handleRequest h (Apply propKey args) sender w =
     (case handleApply h propKey args w of (r, w') \<Rightarrow> (settle r, w'))"
| "handleRequest h (Subscribe propKey args subscriptionId) sender w =
     (case handleSubscribe h propKey args subscriptionId sender w of (r, w') \<Rightarrow> (settle r, w'))"
| "handleRequest h (Unsubscribe subscriptionId) sender w =
     (case handleUnsubscribe h subscriptionId w of (r, w') \<Rightarrow> (settle r, w'))"
| "handleRequest h (Other ty) sender w =
     (Failed (JsError ''Error'' (''Unhandled RequestType ['' @ ty @ '']'')), w)"

definition unsubscribeAll :: "nat \<Rightarrow> world \<Rightarrow> world" where
  "unsubscribeAll h w =
     (let w1 = fold rx_unsubscribe (map snd (subscriptions (handlers w h))) w
      in w1\<lparr>handlers := (handlers w1)(h := (handlers w1 h)\<lparr>subscriptions := []\<rparr>)\<rparr>)"

text \<open>The listener installed by \<^verbatim>\<open>registerProxy\<close>, closed over the handler \<open>h\<close>.\<close>

definition listener :: "nat \<Rightarrow> nat \<Rightarrow> request \<Rightarrow> string \<Rightarrow> world \<Rightarrow> world" where
  "listener h sender req correlationId w =
     (case handleRequest h req sender w of
        (Fulfilled result, w') \<Rightarrow> send sender correlationId (Result result) w'
      | (Failed error, w') \<Rightarrow> send sender correlationId (Error (Errio_stringify error)) w'
      | (Hangs, w') \<Rightarrow> w')"

definition registerProxy ::
  "nat \<Rightarrow> target \<Rightarrow> descriptor \<Rightarrow> world \<Rightarrow> (jserror + unregister_fn) \<times> world" where
  "registerProxy transport tgt d w =
     (let ch = channel d in
      if registered w ch \<noteq> Falsy
      then (Inl (JsError ''Error''
                  (''Proxy object has already been registered on channel '' @ ch)), w)
      else let server = next_handler w;
               w1 = w\<lparr>handlers := (handlers w)(server := \<lparr>target = tgt, subscriptions = []\<rparr>),
                      next_handler := Suc server\<rparr>;
               w2 = w1\<lparr>registrations := (registrations w1)(ch := Some (Some server))\<rparr>;
               w3 = w2\<lparr>listeners := (listeners w2)
                         (transport := (listeners w2 transport)
                            (ch := listeners w2 transport ch @ [server]))\<rparr>
           in (Inr (UnregisterFn ch transport), w3))"

definition unregisterProxy :: "string \<Rightarrow> nat \<Rightarrow> world \<Rightarrow> (jserror + unit) \<times> world" where
  "unregisterProxy ch transport w =
     (let w1 = w\<lparr>listeners := (listeners w)(transport := (listeners w transport)(ch := []))\<rparr>
      in case registered w1 ch of
           Falsy \<Rightarrow> (Inl (JsError ''Error'' (''No proxy is registered on channel '' @ ch)), w1)
         | Builtin \<Rightarrow>
             (Inl (JsError ''TypeError'' ''server.unsubscribeAll is not a function''), w1)
         | Held server \<Rightarrow>
             let w2 = unsubscribeAll server w1
             in (Inr (), w2\<lparr>registrations := (registrations w2)(ch := Some None)\<rparr>))"

fun invoke :: "unregister_fn \<Rightarrow> world \<Rightarrow> (jserror + unit) \<times> world" where
  "invoke (UnregisterFn ch transport) w = unregisterProxy ch transport w"

section \<open>Events\<close>

text \<open>
  \<open>ipc_message\<close> is the transport emitting a message on a channel: every listener installed
  there runs in turn. \<open>sender_destroyed\<close> is the sender emitting \<^verbatim>\<open>destroyed\<close>: the
  pending one-shot callbacks run in turn, each discarded as it runs; a callback that throws
  ends the emission, and the callbacks after it stay pending (\<open>run_destroyed\<close> returns
  them).
\<close>

definition ipc_message :: "nat \<Rightarrow> string \<Rightarrow> nat \<Rightarrow> request \<Rightarrow> string \<Rightarrow> world \<Rightarrow> world" where
  "ipc_message transport ch sender req correlationId w =
     fold (\<lambda>h. listener h sender req correlationId) (listeners w transport ch) w"

fun run_destroyed :: "(nat \<times> string) list \<Rightarrow> world \<Rightarrow> (nat \<times> string) list \<times> world" where
  "run_destroyed [] w = ([], w)"
| "run_destroyed (cb # cbs) w =
     (case doUnsubscribe (fst cb) (snd cb) w of
        (Inl error, w') \<Rightarrow> (cbs, w')
      | (Inr u, w') \<Rightarrow> run_destroyed cbs w')"

definition sender_destroyed :: "nat \<Rightarrow> world \<Rightarrow> world" where
  "sender_destroyed sender w =
     (case run_destroyed (once_destroyed w sender) w of
        (pending, w') \<Rightarrow> w'\<lparr>once_destroyed := (once_destroyed w')(sender := pending)\<rparr>)"

fun step :: "event \<Rightarrow> world \<Rightarrow> world" where
  "step (Register transport tgt d) w = snd (registerProxy transport tgt d w)"
| "step (CallUnregister u) w = snd (invoke u w)"
| "step (IpcMessage transport ch sender req correlationId) w =
     ipc_message transport ch sender req correlationId w"
| "step (StreamEmits r n) w = (if r < next_sub w then rx_notify r n w else w)"
| "step (SenderDestroyed sender) w = sender_destroyed sender w"

definition run :: "event list \<Rightarrow> world \<Rightarrow> world" where
  "run es w = fold step es w"

text \<open>
  A method call \<^verbatim>\<open>target[propKey](...args)\<close> made directly on the target: the
  receiver is the target itself, seen through its data members. \<open>None\<close> where the member
  is a function of \<^verbatim>\<open>Object.prototype\<close>, whose result on an object receiver is
  outside this model.
\<close>

definition state_of :: "target \<Rightarrow> string \<Rightarrow> prim option" where
  "state_of t k = (case t k of Some (Prim p) \<Rightarrow> Some p | _ \<Rightarrow> None)"

definition direct_call :: "target \<Rightarrow> string \<Rightarrow> prim list \<Rightarrow> (jserror + jsvalue) option" where
  "direct_call t propKey args =
     (case member t propKey of
        FunV f \<Rightarrow> Some (f (ThisObject (state_of t)) args)
      | BuiltinV name \<Rightarrow> None
      | v \<Rightarrow> Some (Inl (JsError ''TypeError'' ''target[propKey] is not a function'')))"

section \<open>The target and descriptor of test.ts\<close>

text \<open>
  The target \<^verbatim>\<open>new ProxiedClass()\<close> of \<^verbatim>\<open>test/test.ts\<close>, with the members
  of the instance and of its class; \<^verbatim>\<open>addSync\<close> and \<^verbatim>\<open>addAsync\<close>, which
  add floating-point numbers, are left out. \<^verbatim>\<open>returnStringMember\<close> reads
  \<^verbatim>\<open>this.stringMemberSync\<close>, which raises a TypeError when \<^verbatim>\<open>this\<close> is
  undefined (the message is V8's); the arrow functions do not read their receiver; the class
  constructor cannot be called as a function.
\<close>

definition returnStringMember :: "receiver \<Rightarrow> prim list \<Rightarrow> jserror + jsvalue" where
  "returnStringMember this args =
     (case this of
        ThisUndefined \<Rightarrow>
          Inl (JsError ''TypeError''
                ''Cannot read properties of undefined (reading 'stringMemberSync')'')
      | ThisObject st \<Rightarrow>
          Inr (Prim (case st ''stringMemberSync'' of None \<Rightarrow> JUndefined | Some p \<Rightarrow> p)))"

definition throwErrorSync :: "receiver \<Rightarrow> prim list \<Rightarrow> jserror + jsvalue" where
  "throwErrorSync this args = Inl (JsError ''Error'' ''an error'')"

definition throwErrorAsync :: "receiver \<Rightarrow> prim list \<Rightarrow> jserror + jsvalue" where
  "throwErrorAsync this args = Inr (PromiseV (Rejected (JsError ''Error'' ''a rejection'')))"

definition respondAfter :: "receiver \<Rightarrow> prim list \<Rightarrow> jserror + jsvalue" where
  "respondAfter this args = Inr (PromiseV (Resolved JUndefined))"

definition observableProp :: observable where
  "observableProp = Observable [NNext (JNum 1), NNext (JNum 2), NNext (JNum 3), NComplete]"

definition makeObservable :: "receiver \<Rightarrow> prim list \<Rightarrow> jserror + jsvalue" where
  "makeObservable this args = Inr (ObsV (Observable (map NNext args @ [NComplete])))"

definition makeObservableHot :: "receiver \<Rightarrow> prim list \<Rightarrow> jserror + jsvalue" where
  "makeObservableHot this args = Inr (ObsV (Observable []))"

definition makeObservableError :: "receiver \<Rightarrow> prim list \<Rightarrow> jserror + jsvalue" where
  "makeObservableError this args =
     Inr (ObsV (Observable [NError (JsError ''Error'' ''error on stream'')]))"

definition returnObservableProp :: "receiver \<Rightarrow> prim list \<Rightarrow> jserror + jsvalue" where
  "returnObservableProp this args = Inr (ObsV observableProp)"

definition class_constructor :: "receiver \<Rightarrow> prim list \<Rightarrow> jserror + jsvalue" where
  "class_constructor this args = Inl (EngineError ''TypeError'')"

definition ProxiedClass :: target where
  "ProxiedClass = map_of
     [(''stringMemberSync'', Prim (JStr ''a string'')),
      (''stringMemberAsync'', PromiseV (Resolved (JStr ''a string promise''))),
      (''stringGetter'', Prim (JStr ''a string'')),
      (''throwErrorSync'', FunV throwErrorSync),
      (''throwErrorAsync'', FunV throwErrorAsync),
      (''returnStringMember'', FunV returnStringMember),
      (''respondAfter'', FunV respondAfter),
      (''observableProp'', ObsV observableProp),
      (''observableHot'', ObsV (Observable [])),
      (''observableError'', ObsV (Observable [NError (JsError ''Error'' ''error on stream'')])),
      (''makeObservable'', FunV makeObservable),
      (''makeObservableHot'', FunV makeObservableHot),
      (''makeObservableError'', FunV makeObservableError),
      (''returnObservableProp'', FunV returnObservableProp),
      (''privateProperty'', Prim (JNum 42)),
      (''constructor'', FunV class_constructor)]"

definition test_descriptor :: descriptor where
  "test_descriptor =
     \<lparr>channel = ''channelName'',
      properties =
        [(''stringMemberSync'', Value), (''stringMemberAsync'', Value),
         (''stringGetter'', Value), (''throwErrorSync'', Function),
         (''throwErrorAsync'', Function), (''addSync'', Function), (''addAsync'', Function),
         (''returnStringMember'', Function), (''respondAfter'', Function),
         (''observableProp'', ValueStream), (''observableError'', ValueStream),
         (''observableHot'', ValueStream), (''makeObservable'', FunctionStream),
         (''makeObservableError'', FunctionStream), (''makeObservableHot'', FunctionStream),
         (''returnObservableProp'', FunctionStream), (''missingFunction'', Function)]\<rparr>"

text \<open>
  The state after registering the test target and opening one subscription, from sender 7
  under the id \<^verbatim>\<open>sub1\<close>, to \<^verbatim>\<open>observableHot\<close>.
\<close>

definition hot_world :: world where
  "hot_world = run [Register 0 ProxiedClass test_descriptor,
       IpcMessage 0 ''channelName'' 7 (Subscribe ''observableHot'' None ''sub1'') ''corr1'']
     init_world"

section \<open>Invariants of the subscription tables\<close>

abbreviation entry :: "world \<Rightarrow> nat \<Rightarrow> string \<Rightarrow> nat option" where
  "entry w h subscriptionId \<equiv> map_of (subscriptions (handlers w h)) subscriptionId"

text \<open>
  \<open>table_inv\<close>: every entry of every subscription table points to an allocated
  Subscription whose callbacks address the entry's own id, and whose sender still holds the
  fallback closure for that handler and id; and no pending fallback closure holds an id that
  names a member of \<^verbatim>\<open>Object.prototype\<close>. \<open>registry_inv\<close>: no such name is an
  own key of the registration table. \<open>evolves\<close>: between two states the allocated
  Subscriptions keep their callbacks, and a closed one stays closed.
\<close>

definition table_inv :: "world \<Rightarrow> bool" where
  "table_inv w \<longleftrightarrow>
     (\<forall>h sid r. entry w h sid = Some r \<longrightarrow>
        r < next_sub w \<and> sub_address (substore w r) = sid \<and>
        (h, sid) \<in> set (once_destroyed w (sub_sender (substore w r))))
     \<and> (\<forall>s h sid. (h, sid) \<in> set (once_destroyed w s) \<longrightarrow> \<not> inherited sid)"

definition registry_inv :: "world \<Rightarrow> bool" where
  "registry_inv w \<longleftrightarrow> (\<forall>ch. inherited ch \<longrightarrow> registrations w ch = None)"

definition evolves :: "world \<Rightarrow> world \<Rightarrow> bool" where
  "evolves w w' \<longleftrightarrow>
     next_sub w \<le> next_sub w' \<and>
     (\<forall>r. r < next_sub w \<longrightarrow>
        sub_sender (substore w' r) = sub_sender (substore w r) \<and>
        sub_address (substore w' r) = sub_address (substore w r) \<and>
        (sub_closed (substore w r) \<longrightarrow> sub_closed (substore w' r)))"

section \<open>Evaluation and helper lemmas\<close>

lemmas fixture_defs = ProxiedClass_def test_descriptor_def returnStringMember_def
  makeObservable_def observableProp_def init_world_def

lemmas server_defs = run_def registerProxy_def unregisterProxy_def registered_def ipc_message_def
  listener_def handleGet_def handleApply_def handleSubscribe_def handleUnsubscribe_def
  doUnsubscribe_def unsubscribeAll_def sender_destroyed_def member_def send_def
  Errio_stringify_def rx_subscribe_def rx_notify_def rx_unsubscribe_def subscription_at_def
  inherited_def object_prototype_names_def Let_def

lemma map_of_filter_key:
  "map_of (filter (\<lambda>kv. fst kv \<noteq> k) xs) k' = (if k' = k then None else map_of xs k')"
  by (induction xs) auto

lemma fold_rx_unsubscribe_fields:
  "handlers (fold rx_unsubscribe rs w) = handlers w"
  "registrations (fold rx_unsubscribe rs w) = registrations w"
  "listeners (fold rx_unsubscribe rs w) = listeners w"
  "outbox (fold rx_unsubscribe rs w) = outbox w"
  "once_destroyed (fold rx_unsubscribe rs w) = once_destroyed w"
  "next_sub (fold rx_unsubscribe rs w) = next_sub w"
  "next_handler (fold rx_unsubscribe rs w) = next_handler w"
  by (induction rs arbitrary: w) (simp_all add: rx_unsubscribe_def)

lemma fold_rx_unsubscribe_keeps_closed:
  "sub_closed (substore w r) \<Longrightarrow> sub_closed (substore (fold rx_unsubscribe rs w) r)"
  by (induction rs arbitrary: w) (simp_all add: rx_unsubscribe_def)

lemma fold_rx_unsubscribe_closes:
  "r \<in> set rs \<Longrightarrow> sub_closed (substore (fold rx_unsubscribe rs w) r)"
proof (induction rs arbitrary: w)
  case Nil
  then show ?case by simp
next
  case (Cons a rs)
  show ?case
  proof (cases "r = a")
    case True
    have "sub_closed (substore (rx_unsubscribe a w) r)"
      using True by (simp add: rx_unsubscribe_def)
    then show ?thesis
      by (simp add: fold_rx_unsubscribe_keeps_closed)
  next
    case False
    with Cons.prems have "r \<in> set rs" by simp
    then show ?thesis using Cons.IH by simp
  qed
qed

subsection \<open>Effect of each operation on the fields of the state\<close>

lemma evolves_refl: "evolves w w"
  by (simp add: evolves_def)

lemma evolves_trans: "evolves a b \<Longrightarrow> evolves b c \<Longrightarrow> evolves a c"
  unfolding evolves_def by (metis le_trans less_le_trans)

lemma send_fields:
  "handlers (send s a m w) = handlers w"
  "registrations (send s a m w) = registrations w"
  "listeners (send s a m w) = listeners w"
  "once_destroyed (send s a m w) = once_destroyed w"
  "next_sub (send s a m w) = next_sub w"
  "next_handler (send s a m w) = next_handler w"
  "substore (send s a m w) = substore w"
  "outbox (send s a m w) = outbox w @ [(s, a, m)]"
  by (simp_all add: send_def)

lemma observer_fields:
  "handlers (observer s a n w) = handlers w"
  "registrations (observer s a n w) = registrations w"
  "listeners (observer s a n w) = listeners w"
  "once_destroyed (observer s a n w) = once_destroyed w"
  "next_sub (observer s a n w) = next_sub w"
  "next_handler (observer s a n w) = next_handler w"
  "substore (observer s a n w) = substore w"
  by (cases n; simp add: send_fields)+

lemma rx_notify_fields:
  "handlers (rx_notify r n w) = handlers w"
  "registrations (rx_notify r n w) = registrations w"
  "listeners (rx_notify r n w) = listeners w"
  "once_destroyed (rx_notify r n w) = once_destroyed w"
  "next_sub (rx_notify r n w) = next_sub w"
  "next_handler (rx_notify r n w) = next_handler w"
  by (simp_all add: rx_notify_def Let_def observer_fields)

lemma rx_notify_substore:
  "sub_sender (substore (rx_notify r n w) r') = sub_sender (substore w r')"
  "sub_address (substore (rx_notify r n w) r') = sub_address (substore w r')"
  "sub_closed (substore w r') \<Longrightarrow> sub_closed (substore (rx_notify r n w) r')"
  by (simp_all add: rx_notify_def Let_def observer_fields)

lemma rx_notify_closed: "sub_closed (substore w r) \<Longrightarrow> rx_notify r n w = w"
  by (simp add: rx_notify_def)

lemma fold_rx_notify_fields:
  "handlers (fold (rx_notify r) ns w) = handlers w"
  "registrations (fold (rx_notify r) ns w) = registrations w"
  "listeners (fold (rx_notify r) ns w) = listeners w"
  "once_destroyed (fold (rx_notify r) ns w) = once_destroyed w"
  "next_sub (fold (rx_notify r) ns w) = next_sub w"
  "next_handler (fold (rx_notify r) ns w) = next_handler w"
  by (induction ns arbitrary: w) (simp_all add: rx_notify_fields)

lemma fold_rx_notify_substore:
  "sub_sender (substore (fold (rx_notify r) ns w) r') = sub_sender (substore w r')"
  "sub_address (substore (fold (rx_notify r) ns w) r') = sub_address (substore w r')"
  by (induction ns arbitrary: w) (simp_all add: rx_notify_substore)

lemma fold_rx_notify_keeps_closed:
  "sub_closed (substore w r') \<Longrightarrow> sub_closed (substore (fold (rx_notify r) ns w) r')"
  by (induction ns arbitrary: w) (simp_all add: rx_notify_substore)

lemma rx_unsubscribe_fields:
  "handlers (rx_unsubscribe r w) = handlers w"
  "registrations (rx_unsubscribe r w) = registrations w"
  "listeners (rx_unsubscribe r w) = listeners w"
  "once_destroyed (rx_unsubscribe r w) = once_destroyed w"
  "next_sub (rx_unsubscribe r w) = next_sub w"
  "next_handler (rx_unsubscribe r w) = next_handler w"
  "outbox (rx_unsubscribe r w) = outbox w"
  by (simp_all add: rx_unsubscribe_def)

lemma rx_unsubscribe_substore:
  "sub_sender (substore (rx_unsubscribe r w) r') = sub_sender (substore w r')"
  "sub_address (substore (rx_unsubscribe r w) r') = sub_address (substore w r')"
  "sub_closed (substore w r') \<Longrightarrow> sub_closed (substore (rx_unsubscribe r w) r')"
  "sub_closed (substore (rx_unsubscribe r w) r)"
  by (simp_all add: rx_unsubscribe_def)

lemma fold_rx_unsubscribe_substore:
  "sub_sender (substore (fold rx_unsubscribe rs w) r') = sub_sender (substore w r')"
  "sub_address (substore (fold rx_unsubscribe rs w) r') = sub_address (substore w r')"
  by (induction rs arbitrary: w) (simp_all add: rx_unsubscribe_substore)

lemma subscription_at_cases:
  "subscription_at (handlers w h) sid =
     (case entry w h sid of
        Some r \<Rightarrow> Held r
      | None \<Rightarrow> if inherited sid then Builtin else Falsy)"
  by (simp add: subscription_at_def)

lemma doUnsubscribe_entry:
  "entry (snd (doUnsubscribe h sid w)) h' sid' =
     (if h' = h \<and> sid' = sid then None else entry w h' sid')"
  by (auto simp: doUnsubscribe_def subscription_at_def Let_def rx_unsubscribe_fields
      map_of_filter_key split: option.splits)

lemma doUnsubscribe_fields:
  "registrations (snd (doUnsubscribe h sid w)) = registrations w"
  "listeners (snd (doUnsubscribe h sid w)) = listeners w"
  "once_destroyed (snd (doUnsubscribe h sid w)) = once_destroyed w"
  "next_sub (snd (doUnsubscribe h sid w)) = next_sub w"
  "next_handler (snd (doUnsubscribe h sid w)) = next_handler w"
  "outbox (snd (doUnsubscribe h sid w)) = outbox w"
  by (simp_all add: doUnsubscribe_def subscription_at_def Let_def rx_unsubscribe_fields
      split: option.splits)

lemma doUnsubscribe_substore:
  "sub_sender (substore (snd (doUnsubscribe h sid w)) r') = sub_sender (substore w r')"
  "sub_address (substore (snd (doUnsubscribe h sid w)) r') = sub_address (substore w r')"
  "sub_closed (substore w r') \<Longrightarrow> sub_closed (substore (snd (doUnsubscribe h sid w)) r')"
  by (simp_all add: doUnsubscribe_def subscription_at_def Let_def rx_unsubscribe_substore
      split: option.splits)

lemma doUnsubscribe_held:
  "entry w h sid = Some r \<Longrightarrow> fst (doUnsubscribe h sid w) = Inr ()"
  "entry w h sid = Some r \<Longrightarrow> sub_closed (substore (snd (doUnsubscribe h sid w)) r)"
  "entry w h sid = Some r \<Longrightarrow>
     unsubscribe_calls (substore (snd (doUnsubscribe h sid w)) r) =
       Suc (unsubscribe_calls (substore w r))"
  by (simp_all add: doUnsubscribe_def subscription_at_def Let_def rx_unsubscribe_def)

lemma doUnsubscribe_absent: "entry w h sid = None \<Longrightarrow> snd (doUnsubscribe h sid w) = w"
  by (simp add: doUnsubscribe_def subscription_at_def)

lemma doUnsubscribe_ok: "\<not> inherited sid \<Longrightarrow> fst (doUnsubscribe h sid w) = Inr ()"
  by (simp add: doUnsubscribe_def subscription_at_def Let_def split: option.splits)

subsection \<open>Preservation of the invariants\<close>

lemma map_of_snoc_fresh:
  "map_of xs k = None \<Longrightarrow> map_of (xs @ [(k, v)]) k' = (if k' = k then Some v else map_of xs k')"
  by (auto simp: map_add_def split: option.splits)

text \<open>What a step may do to the tables and the subscriptions, short of adding entries.\<close>

lemma table_inv_shrink:
  assumes "table_inv w" and "evolves w w'"
    and "\<And>h sid r. entry w' h sid = Some r \<Longrightarrow> entry w h sid = Some r"
    and "once_destroyed w' = once_destroyed w"
  shows "table_inv w'"
proof -
  have "r < next_sub w' \<and> sub_address (substore w' r) = sid \<and>
      (h, sid) \<in> set (once_destroyed w' (sub_sender (substore w' r)))"
    if e': "entry w' h sid = Some r" for h sid r
  proof -
    from e' have e: "entry w h sid = Some r" by (rule assms(3))
    with assms(1) have r: "r < next_sub w" and a: "sub_address (substore w r) = sid"
      and o: "(h, sid) \<in> set (once_destroyed w (sub_sender (substore w r)))"
      by (auto simp: table_inv_def)
    from assms(2) r have "r < next_sub w'"
      and "sub_sender (substore w' r) = sub_sender (substore w r)"
      and "sub_address (substore w' r) = sub_address (substore w r)"
      by (auto simp: evolves_def)
    with a o assms(4) show ?thesis by simp
  qed
  moreover have "\<not> inherited sid" if "(h, sid) \<in> set (once_destroyed w' s)" for s h sid
    using that assms(1,4) by (auto simp: table_inv_def)
  ultimately show ?thesis
    unfolding table_inv_def by blast
qed

lemma evolves_rx_notify: "evolves w (rx_notify r n w)"
  by (simp add: evolves_def rx_notify_fields rx_notify_substore)

lemma evolves_rx_unsubscribe: "evolves w (rx_unsubscribe r w)"
  by (simp add: evolves_def rx_unsubscribe_fields rx_unsubscribe_substore)

lemma evolves_fold_rx_unsubscribe: "evolves w (fold rx_unsubscribe rs w)"
  by (simp add: evolves_def fold_rx_unsubscribe_fields fold_rx_unsubscribe_substore
      fold_rx_unsubscribe_keeps_closed)

lemma evolves_doUnsubscribe: "evolves w (snd (doUnsubscribe h sid w))"
  by (simp add: evolves_def doUnsubscribe_fields doUnsubscribe_substore)

lemma table_inv_doUnsubscribe: "table_inv w \<Longrightarrow> table_inv (snd (doUnsubscribe h sid w))"
  by (rule table_inv_shrink [where w = w])
     (auto simp: evolves_doUnsubscribe doUnsubscribe_entry doUnsubscribe_fields split: if_splits)

text \<open>unsubscribeAll\<close>

lemma unsubscribeAll_entry:
  "entry (unsubscribeAll h w) h' sid = (if h' = h then None else entry w h' sid)"
  by (simp add: unsubscribeAll_def Let_def fold_rx_unsubscribe_fields)

lemma unsubscribeAll_fields:
  "registrations (unsubscribeAll h w) = registrations w"
  "listeners (unsubscribeAll h w) = listeners w"
  "once_destroyed (unsubscribeAll h w) = once_destroyed w"
  "next_sub (unsubscribeAll h w) = next_sub w"
  "next_handler (unsubscribeAll h w) = next_handler w"
  "outbox (unsubscribeAll h w) = outbox w"
  by (simp_all add: unsubscribeAll_def Let_def fold_rx_unsubscribe_fields)

lemma evolves_unsubscribeAll: "evolves w (unsubscribeAll h w)"
  using evolves_fold_rx_unsubscribe [of w "map snd (subscriptions (handlers w h))"]
  by (simp add: evolves_def unsubscribeAll_def Let_def)

lemma table_inv_unsubscribeAll: "table_inv w \<Longrightarrow> table_inv (unsubscribeAll h w)"
  by (rule table_inv_shrink [where w = w])
     (auto simp: evolves_unsubscribeAll unsubscribeAll_entry unsubscribeAll_fields split: if_splits)

text \<open>registerProxy and unregisterProxy\<close>

lemma registerProxy_entry:
  "entry (snd (registerProxy tr tgt d w)) h sid = Some r \<Longrightarrow> entry w h sid = Some r"
  by (auto simp: registerProxy_def Let_def split: if_splits)

lemma registerProxy_fields:
  "once_destroyed (snd (registerProxy tr tgt d w)) = once_destroyed w"
  "next_sub (snd (registerProxy tr tgt d w)) = next_sub w"
  "substore (snd (registerProxy tr tgt d w)) = substore w"
  "outbox (snd (registerProxy tr tgt d w)) = outbox w"
  by (simp_all add: registerProxy_def Let_def)

lemma evolves_registerProxy: "evolves w (snd (registerProxy tr tgt d w))"
  by (simp add: evolves_def registerProxy_fields)

lemma table_inv_registerProxy: "table_inv w \<Longrightarrow> table_inv (snd (registerProxy tr tgt d w))"
  by (rule table_inv_shrink [where w = w])
     (auto simp: evolves_registerProxy registerProxy_fields dest: registerProxy_entry)

lemma unsubscribeAll_substore:
  "sub_sender (substore (unsubscribeAll h w) r) = sub_sender (substore w r)"
  "sub_address (substore (unsubscribeAll h w) r) = sub_address (substore w r)"
  "sub_closed (substore w r) \<Longrightarrow> sub_closed (substore (unsubscribeAll h w) r)"
  by (simp_all add: unsubscribeAll_def Let_def fold_rx_unsubscribe_substore
      fold_rx_unsubscribe_keeps_closed)

lemma table_inv_cong:
  "handlers w' = handlers w \<Longrightarrow> substore w' = substore w \<Longrightarrow> next_sub w' = next_sub w \<Longrightarrow>
   once_destroyed w' = once_destroyed w \<Longrightarrow> table_inv w' = table_inv w"
  by (simp add: table_inv_def)

lemma unregisterProxy_fields:
  "once_destroyed (snd (unregisterProxy ch tr w)) = once_destroyed w"
  "next_sub (snd (unregisterProxy ch tr w)) = next_sub w"
  "outbox (snd (unregisterProxy ch tr w)) = outbox w"
  by (simp_all add: unregisterProxy_def Let_def unsubscribeAll_fields split: slot.splits)

lemma unregisterProxy_substore:
  "sub_sender (substore (snd (unregisterProxy ch tr w)) r) = sub_sender (substore w r)"
  "sub_address (substore (snd (unregisterProxy ch tr w)) r) = sub_address (substore w r)"
  "sub_closed (substore w r) \<Longrightarrow> sub_closed (substore (snd (unregisterProxy ch tr w)) r)"
  by (simp_all add: unregisterProxy_def Let_def unsubscribeAll_substore split: slot.splits)

lemma evolves_unregisterProxy: "evolves w (snd (unregisterProxy ch tr w))"
  by (simp add: evolves_def unregisterProxy_fields unregisterProxy_substore)

lemma unregisterProxy_entry:
  "entry (snd (unregisterProxy ch tr w)) h sid = Some r \<Longrightarrow> entry w h sid = Some r"
  by (auto simp: unregisterProxy_def Let_def unsubscribeAll_entry split: slot.splits if_splits)

lemma table_inv_unregisterProxy: "table_inv w \<Longrightarrow> table_inv (snd (unregisterProxy ch tr w))"
  by (rule table_inv_shrink [where w = w])
     (auto simp: evolves_unregisterProxy unregisterProxy_fields dest: unregisterProxy_entry)

text \<open>handleSubscribe\<close>

lemma rx_subscribe_fields:
  "fst (rx_subscribe obs s sid w) = next_sub w"
  "handlers (snd (rx_subscribe obs s sid w)) = handlers w"
  "registrations (snd (rx_subscribe obs s sid w)) = registrations w"
  "listeners (snd (rx_subscribe obs s sid w)) = listeners w"
  "once_destroyed (snd (rx_subscribe obs s sid w)) = once_destroyed w"
  "next_sub (snd (rx_subscribe obs s sid w)) = Suc (next_sub w)"
  "next_handler (snd (rx_subscribe obs s sid w)) = next_handler w"
  by (simp_all add: rx_subscribe_def Let_def fold_rx_notify_fields)

lemma rx_subscribe_substore:
  "sub_sender (substore (snd (rx_subscribe obs s sid w)) r) =
     (if r = next_sub w then s else sub_sender (substore w r))"
  "sub_address (substore (snd (rx_subscribe obs s sid w)) r) =
     (if r = next_sub w then sid else sub_address (substore w r))"
  "r \<noteq> next_sub w \<Longrightarrow> sub_closed (substore w r) \<Longrightarrow>
     sub_closed (substore (snd (rx_subscribe obs s sid w)) r)"
  by (simp_all add: rx_subscribe_def Let_def fold_rx_notify_substore fold_rx_notify_keeps_closed)

lemma handleSubscribe_cases:
  "snd (handleSubscribe h p a sid s w) = w \<or>
   (entry w h sid = None \<and> \<not> inherited sid \<and>
    snd (handleSubscribe h p a sid s w) =
      (snd (rx_subscribe (member (target (handlers w h)) p) s sid w))
        \<lparr>handlers := (handlers w)
           (h := (handlers w h)\<lparr>subscriptions := subscriptions (handlers w h) @ [(sid, next_sub w)]\<rparr>),
         once_destroyed := (once_destroyed w)(s := once_destroyed w s @ [(h, sid)])\<rparr>)"
proof (cases "subscription_at (handlers w h) sid \<noteq> Falsy
    \<or> \<not> isObservable (member (target (handlers w h)) p)")
  case True
  then have "snd (handleSubscribe h p a sid s w) = w"
    by (auto simp: handleSubscribe_def Let_def)
  then show ?thesis by simp
next
  case False
  then have free: "entry w h sid = None" "\<not> inherited sid"
    by (auto simp: subscription_at_def split: option.splits if_splits)
  obtain r w1 where rx: "rx_subscribe (member (target (handlers w h)) p) s sid w = (r, w1)"
    by (cases "rx_subscribe (member (target (handlers w h)) p) s sid w")
  have r: "r = next_sub w"
    using rx_subscribe_fields(1) [of "member (target (handlers w h)) p" s sid w] rx by simp
  have w1: "handlers w1 = handlers w" "once_destroyed w1 = once_destroyed w"
    using rx_subscribe_fields(2,5) [of "member (target (handlers w h)) p" s sid w] rx by simp_all
  have "snd (handleSubscribe h p a sid s w) =
      w1\<lparr>handlers := (handlers w)
           (h := (handlers w h)\<lparr>subscriptions := subscriptions (handlers w h) @ [(sid, next_sub w)]\<rparr>),
         once_destroyed := (once_destroyed w)(s := once_destroyed w s @ [(h, sid)])\<rparr>"
    using False by (simp add: handleSubscribe_def Let_def rx r w1)
  then show ?thesis using free rx by simp
qed

lemma evolves_rx_subscribe: "evolves w (snd (rx_subscribe obs s sid w))"
  by (simp add: evolves_def rx_subscribe_fields rx_subscribe_substore)

lemma evolves_handleSubscribe: "evolves w (snd (handleSubscribe h p a sid s w))"
  using handleSubscribe_cases [of h p a sid s w]
    evolves_rx_subscribe [of w "member (target (handlers w h)) p" s sid]
  by (auto simp: evolves_def)

lemma table_inv_handleSubscribe:
  assumes "table_inv w"
  shows "table_inv (snd (handleSubscribe h p a sid s w))"
proof -
  let ?w' = "snd (handleSubscribe h p a sid s w)"
  let ?rx = "snd (rx_subscribe (member (target (handlers w h)) p) s sid w)"
  from handleSubscribe_cases [of h p a sid s w] show ?thesis
  proof (elim disjE conjE)
    assume "?w' = w"
    then show ?thesis using assms by simp
  next
    assume added: "entry w h sid = None" "\<not> inherited sid"
        "?w' = ?rx\<lparr>handlers := (handlers w)
           (h := (handlers w h)\<lparr>subscriptions := subscriptions (handlers w h) @ [(sid, next_sub w)]\<rparr>),
         once_destroyed := (once_destroyed w)(s := once_destroyed w s @ [(h, sid)])\<rparr>"
    have entries: "r < next_sub ?w' \<and> sub_address (substore ?w' r) = sid' \<and>
          (h', sid') \<in> set (once_destroyed ?w' (sub_sender (substore ?w' r)))"
      if e: "entry ?w' h' sid' = Some r" for h' sid' r
    proof (cases "h' = h \<and> sid' = sid")
      case True
      with e added have "r = next_sub w"
        by (simp add: map_of_snoc_fresh del: map_of_append)
      with True show ?thesis
        by (simp add: added(3) rx_subscribe_fields rx_subscribe_substore)
    next
      case False
      with e added have old: "entry w h' sid' = Some r"
        by (auto simp: map_of_snoc_fresh simp del: map_of_append split: if_splits)
      with assms have "r < next_sub w" "sub_address (substore w r) = sid'"
        "(h', sid') \<in> set (once_destroyed w (sub_sender (substore w r)))"
        by (auto simp: table_inv_def)
      then show ?thesis
        by (auto simp: added(3) rx_subscribe_fields rx_subscribe_substore)
    qed
    have callbacks: "\<not> inherited sid'" if "(h', sid') \<in> set (once_destroyed ?w' s')"
      for s' h' sid'
      using that assms added(2) by (auto simp: added(3) table_inv_def split: if_splits)
    show ?thesis
      unfolding table_inv_def using entries callbacks by blast
  qed
qed

text \<open>handleRequest, the listener and the transport\<close>

lemma handleUnsubscribe_world:
  "snd (handleUnsubscribe h sid w) = w \<or> snd (handleUnsubscribe h sid w) = snd (doUnsubscribe h sid w)"
  by (auto simp: handleUnsubscribe_def split: prod.splits sum.splits)

lemma handleRequest_world:
  "snd (handleRequest h req s w) = w
   \<or> (\<exists>p a sid. snd (handleRequest h req s w) = snd (handleSubscribe h p a sid s w))
   \<or> (\<exists>sid. snd (handleRequest h req s w) = snd (doUnsubscribe h sid w))"
proof (cases req)
  case (Get p)
  then show ?thesis by (simp add: handleGet_def)
next
  case (Apply p a)
  then show ?thesis by (simp add: handleApply_def Let_def)
next
  case (Subscribe p a sid)
  then have "snd (handleRequest h req s w) = snd (handleSubscribe h p a sid s w)"
    by (simp split: prod.splits)
  then show ?thesis by blast
next
  case (Unsubscribe sid)
  then have "snd (handleRequest h req s w) = snd (handleUnsubscribe h sid w)"
    by (simp split: prod.splits)
  with handleUnsubscribe_world [of h sid w] show ?thesis by auto
next
  case (Other ty)
  then show ?thesis by simp
qed

lemma table_inv_handleRequest: "table_inv w \<Longrightarrow> table_inv (snd (handleRequest h req s w))"
  using handleRequest_world [of h req s w]
  by (auto simp: table_inv_handleSubscribe table_inv_doUnsubscribe)

lemma evolves_handleRequest: "evolves w (snd (handleRequest h req s w))"
  using handleRequest_world [of h req s w]
  by (auto simp: evolves_handleSubscribe evolves_doUnsubscribe evolves_refl)

lemma listener_world:
  "\<exists>out. listener h s req cid w = (snd (handleRequest h req s w))\<lparr>outbox := out\<rparr>"
proof (cases "handleRequest h req s w")
  case (Pair out w')
  then show ?thesis
    by (cases out) (auto simp: listener_def send_def intro: exI [of _ "outbox w'"])
qed

lemma table_inv_outbox: "table_inv (w\<lparr>outbox := out\<rparr>) = table_inv w"
  by (simp add: table_inv_def)

lemma evolves_outbox: "evolves w (w'\<lparr>outbox := out\<rparr>) = evolves w w'"
  by (simp add: evolves_def)

lemma table_inv_listener: "table_inv w \<Longrightarrow> table_inv (listener h s req cid w)"
  using listener_world [of h s req cid w]
  by (auto simp: table_inv_outbox table_inv_handleRequest)

lemma evolves_listener: "evolves w (listener h s req cid w)"
  using listener_world [of h s req cid w]
  by (auto simp: evolves_outbox evolves_handleRequest)

lemma fold_listener:
  "table_inv w \<Longrightarrow>
     table_inv (fold (\<lambda>h. listener h s req cid) hs w)
     \<and> evolves w (fold (\<lambda>h. listener h s req cid) hs w)"
proof (induction hs arbitrary: w)
  case Nil
  then show ?case by (simp add: evolves_refl)
next
  case (Cons h hs)
  have "table_inv (listener h s req cid w)"
    using Cons.prems by (rule table_inv_listener)
  from Cons.IH [OF this] evolves_listener [of w h s req cid]
  show ?case by (auto intro: evolves_trans)
qed

text \<open>The sender's destroyed signal\<close>

lemma run_destroyed_Cons:
  "snd (run_destroyed (cb # cbs) w) =
     (case fst (doUnsubscribe (fst cb) (snd cb) w) of
        Inl error \<Rightarrow> snd (doUnsubscribe (fst cb) (snd cb) w)
      | Inr u \<Rightarrow> snd (run_destroyed cbs (snd (doUnsubscribe (fst cb) (snd cb) w))))"
  by (simp split: prod.splits sum.splits)

lemma run_destroyed_preserves:
  assumes "\<And>h sid w. P w \<Longrightarrow> P (snd (doUnsubscribe h sid w))" and "P w"
  shows "P (snd (run_destroyed cbs w))"
  using assms(2)
proof (induction cbs arbitrary: w)
  case Nil
  then show ?case by simp
next
  case (Cons cb cbs)
  have step: "P (snd (doUnsubscribe (fst cb) (snd cb) w))"
    using Cons.prems by (rule assms(1))
  show ?case
    unfolding run_destroyed_Cons
    using step Cons.IH [OF step] by (simp split: sum.splits)
qed

lemma run_destroyed_fields:
  "registrations (snd (run_destroyed cbs w)) = registrations w"
  "listeners (snd (run_destroyed cbs w)) = listeners w"
  "once_destroyed (snd (run_destroyed cbs w)) = once_destroyed w"
  "next_sub (snd (run_destroyed cbs w)) = next_sub w"
  "next_handler (snd (run_destroyed cbs w)) = next_handler w"
  "outbox (snd (run_destroyed cbs w)) = outbox w"
  by (rule run_destroyed_preserves; simp add: doUnsubscribe_fields)+

lemma run_destroyed_substore:
  "sub_sender (substore (snd (run_destroyed cbs w)) r) = sub_sender (substore w r)"
  "sub_address (substore (snd (run_destroyed cbs w)) r) = sub_address (substore w r)"
  by (rule run_destroyed_preserves; simp add: doUnsubscribe_substore)+

lemma run_destroyed_keeps_closed:
  "sub_closed (substore w r) \<Longrightarrow> sub_closed (substore (snd (run_destroyed cbs w)) r)"
  by (rule run_destroyed_preserves) (simp_all add: doUnsubscribe_substore)

text \<open>While no callback holds an inherited name, none throws, and all of them run.\<close>

lemma run_destroyed_all:
  "\<forall>cb \<in> set cbs. \<not> inherited (snd cb) \<Longrightarrow> fst (run_destroyed cbs w) = []"
proof (induction cbs arbitrary: w)
  case Nil
  then show ?case by simp
next
  case (Cons cb cbs)
  have ok: "fst (doUnsubscribe (fst cb) (snd cb) w) = Inr ()"
    using Cons.prems by (simp add: doUnsubscribe_ok)
  then have "fst (run_destroyed (cb # cbs) w) =
      fst (run_destroyed cbs (snd (doUnsubscribe (fst cb) (snd cb) w)))"
    by (cases "doUnsubscribe (fst cb) (snd cb) w") auto
  then show ?case
    using Cons.IH Cons.prems by simp
qed

lemma run_destroyed_entry:
  "\<forall>cb \<in> set cbs. \<not> inherited (snd cb) \<Longrightarrow>
     entry (snd (run_destroyed cbs w)) h sid =
       (if (h, sid) \<in> set cbs then None else entry w h sid)"
proof (induction cbs arbitrary: w)
  case Nil
  then show ?case by simp
next
  case (Cons cb cbs)
  let ?w' = "snd (doUnsubscribe (fst cb) (snd cb) w)"
  have ok: "fst (doUnsubscribe (fst cb) (snd cb) w) = Inr ()"
    using Cons.prems by (simp add: doUnsubscribe_ok)
  have step: "snd (run_destroyed (cb # cbs) w) = snd (run_destroyed cbs ?w')"
    unfolding run_destroyed_Cons by (simp add: ok)
  have rest: "entry (snd (run_destroyed cbs ?w')) h sid =
       (if (h, sid) \<in> set cbs then None else entry ?w' h sid)"
    using Cons.IH [of ?w'] Cons.prems by simp
  have first: "entry ?w' h sid = (if cb = (h, sid) then None else entry w h sid)"
    by (cases cb) (auto simp: doUnsubscribe_entry)
  show ?case
    unfolding step rest first by auto
qed

lemma run_destroyed_closes:
  "\<forall>cb \<in> set cbs. \<not> inherited (snd cb) \<Longrightarrow> entry w h sid = Some r \<Longrightarrow>
     (h, sid) \<in> set cbs \<Longrightarrow> sub_closed (substore (snd (run_destroyed cbs w)) r)"
proof (induction cbs arbitrary: w)
  case Nil
  then show ?case by simp
next
  case (Cons cb cbs)
  let ?w' = "snd (doUnsubscribe (fst cb) (snd cb) w)"
  have ok: "fst (doUnsubscribe (fst cb) (snd cb) w) = Inr ()"
    using Cons.prems(1) by (simp add: doUnsubscribe_ok)
  have step: "snd (run_destroyed (cb # cbs) w) = snd (run_destroyed cbs ?w')"
    unfolding run_destroyed_Cons by (simp add: ok)
  have rest: "\<forall>cb \<in> set cbs. \<not> inherited (snd cb)"
    using Cons.prems(1) by simp
  show ?case
  proof (cases "cb = (h, sid)")
    case True
    then have "sub_closed (substore ?w' r)"
      using Cons.prems(2) by (simp add: doUnsubscribe_held)
    then show ?thesis
      unfolding step by (rule run_destroyed_keeps_closed)
  next
    case False
    then have "entry ?w' h sid = Some r"
      using Cons.prems(2) by (cases cb) (auto simp: doUnsubscribe_entry)
    moreover have "(h, sid) \<in> set cbs"
      using False Cons.prems(3) by auto
    ultimately show ?thesis
      unfolding step using Cons.IH [OF rest] by blast
  qed
qed

lemma sender_destroyed_world:
  "sender_destroyed s w =
     (snd (run_destroyed (once_destroyed w s) w))
       \<lparr>once_destroyed := (once_destroyed w)(s := fst (run_destroyed (once_destroyed w s) w))\<rparr>"
proof (cases "run_destroyed (once_destroyed w s) w")
  case (Pair pending w')
  then have "once_destroyed w' = once_destroyed w"
    using run_destroyed_fields(3) [of "once_destroyed w s" w] by simp
  then show ?thesis
    by (simp add: sender_destroyed_def Pair)
qed

lemma evolves_sender_destroyed: "evolves w (sender_destroyed s w)"
  by (simp add: evolves_def sender_destroyed_world run_destroyed_fields
      run_destroyed_substore run_destroyed_keeps_closed)

lemma table_inv_sender_destroyed:
  assumes "table_inv w"
  shows "table_inv (sender_destroyed s w)"
proof -
  let ?w' = "sender_destroyed s w"
  have cbs: "\<forall>cb \<in> set (once_destroyed w s). \<not> inherited (snd cb)"
    using assms by (auto simp: table_inv_def)
  have pending: "once_destroyed ?w' = (once_destroyed w)(s := [])"
    by (simp add: sender_destroyed_world run_destroyed_all [OF cbs])
  have entries: "r < next_sub ?w' \<and> sub_address (substore ?w' r) = sid \<and>
      (h, sid) \<in> set (once_destroyed ?w' (sub_sender (substore ?w' r)))"
    if e': "entry ?w' h sid = Some r" for h sid r
  proof -
    from e' have notin: "(h, sid) \<notin> set (once_destroyed w s)" and e: "entry w h sid = Some r"
      by (auto simp: sender_destroyed_world run_destroyed_entry [OF cbs] split: if_splits)
    from assms e have r: "r < next_sub w" and a: "sub_address (substore w r) = sid"
      and o: "(h, sid) \<in> set (once_destroyed w (sub_sender (substore w r)))"
      by (auto simp: table_inv_def)
    from o notin have other: "sub_sender (substore w r) \<noteq> s" by auto
    have sub: "sub_sender (substore ?w' r) = sub_sender (substore w r)"
      "sub_address (substore ?w' r) = sub_address (substore w r)" "next_sub ?w' = next_sub w"
      by (simp_all add: sender_destroyed_world run_destroyed_fields run_destroyed_substore)
    show ?thesis
      using r a o other by (simp add: sub pending)
  qed
  have callbacks: "\<not> inherited sid" if "(h, sid) \<in> set (once_destroyed ?w' s')" for s' h sid
    using that assms by (auto simp: pending table_inv_def split: if_splits)
  show ?thesis
    unfolding table_inv_def using entries callbacks by blast
qed

text \<open>Every event, and every run from the initial state\<close>

lemma table_inv_rx_notify: "table_inv w \<Longrightarrow> table_inv (rx_notify r n w)"
  by (simp add: table_inv_def rx_notify_fields rx_notify_substore)

lemma step_inv: "table_inv w \<Longrightarrow> table_inv (step e w) \<and> evolves w (step e w)"
proof (cases e)
  case (Register tr tgt d)
  then show "table_inv w \<Longrightarrow> ?thesis"
    by (simp add: table_inv_registerProxy evolves_registerProxy)
next
  case (CallUnregister u)
  then show "table_inv w \<Longrightarrow> ?thesis"
    by (cases u) (simp add: table_inv_unregisterProxy evolves_unregisterProxy)
next
  case (IpcMessage tr ch s req cid)
  then show "table_inv w \<Longrightarrow> ?thesis"
    by (simp add: ipc_message_def fold_listener)
next
  case (StreamEmits r n)
  then show "table_inv w \<Longrightarrow> ?thesis"
    by (simp add: table_inv_rx_notify evolves_rx_notify evolves_refl)
next
  case (SenderDestroyed s)
  then show "table_inv w \<Longrightarrow> ?thesis"
    by (simp add: table_inv_sender_destroyed evolves_sender_destroyed)
qed

lemma run_inv: "table_inv w \<Longrightarrow> table_inv (run es w) \<and> evolves w (run es w)"
proof (induction es arbitrary: w)
  case Nil
  then show ?case by (simp add: run_def evolves_refl)
next
  case (Cons e es)
  from step_inv [OF Cons.prems] have s: "table_inv (step e w)" "evolves w (step e w)"
    by simp_all
  from Cons.IH [OF s(1)] s(2) show ?case
    by (auto simp: run_def intro: evolves_trans)
qed

lemma table_inv_init: "table_inv init_world"
  by (simp add: table_inv_def init_world_def)

lemma reachable_inv: "table_inv (run es init_world)"
  using run_inv [OF table_inv_init] by simp

text \<open>The registration table never gets an own key that names an inherited member.\<close>

lemma handleRequest_registrations:
  "registrations (snd (handleRequest h req s w)) = registrations w"
proof -
  have sub: "registrations (snd (handleSubscribe h p a sid s w)) = registrations w" for p a sid
    using handleSubscribe_cases [of h p a sid s w]
    by (auto simp: rx_subscribe_fields)
  show ?thesis
    using handleRequest_world [of h req s w] by (auto simp: sub doUnsubscribe_fields)
qed

lemma listener_registrations: "registrations (listener h s req cid w) = registrations w"
  using listener_world [of h s req cid w] by (auto simp: handleRequest_registrations)

lemma ipc_message_registrations:
  "registrations (ipc_message tr ch s req cid w) = registrations w"
proof -
  have "registrations (fold (\<lambda>h. listener h s req cid) hs w) = registrations w" for hs
    by (induction hs arbitrary: w) (simp_all add: listener_registrations)
  then show ?thesis by (simp add: ipc_message_def)
qed

lemma registry_inv_registerProxy:
  "registry_inv w \<Longrightarrow> registry_inv (snd (registerProxy tr tgt d w))"
  by (auto simp: registry_inv_def registerProxy_def registered_def Let_def
      split: option.splits if_splits)

lemma registry_inv_unregisterProxy:
  "registry_inv w \<Longrightarrow> registry_inv (snd (unregisterProxy ch tr w))"
  by (auto simp: registry_inv_def unregisterProxy_def registered_def Let_def unsubscribeAll_fields
      split: option.splits if_splits slot.splits)

lemma step_registry_inv: "registry_inv w \<Longrightarrow> registry_inv (step e w)"
proof (cases e)
  case (Register tr tgt d)
  then show "registry_inv w \<Longrightarrow> ?thesis" by (simp add: registry_inv_registerProxy)
next
  case (CallUnregister u)
  then show "registry_inv w \<Longrightarrow> ?thesis" by (cases u) (simp add: registry_inv_unregisterProxy)
next
  case (IpcMessage tr ch s req cid)
  then show "registry_inv w \<Longrightarrow> ?thesis"
    by (simp add: registry_inv_def ipc_message_registrations)
next
  case (StreamEmits r n)
  then show "registry_inv w \<Longrightarrow> ?thesis" by (simp add: registry_inv_def rx_notify_fields)
next
  case (SenderDestroyed s)
  then show "registry_inv w \<Longrightarrow> ?thesis"
    by (simp add: registry_inv_def sender_destroyed_world run_destroyed_fields)
qed

lemma reachable_registry_inv: "registry_inv (run es init_world)"
proof -
  have "registry_inv w \<Longrightarrow> registry_inv (run es w)" for w
    by (induction es arbitrary: w) (simp_all add: run_def step_registry_inv)
  moreover have "registry_inv init_world"
    by (simp add: registry_inv_def init_world_def)
  ultimately show ?thesis by simp
qed

lemma registered_channel_not_inherited:
  "registry_inv w \<Longrightarrow> fst (registerProxy tr tgt d w) = Inr u \<Longrightarrow> \<not> inherited (channel d)"
  by (auto simp: registry_inv_def registerProxy_def registered_def Let_def
      split: option.splits if_splits)

subsection \<open>The example state\<close>

lemma hot_world_entry: "entry hot_world 0 ''sub1'' = Some 0"
  by (simp add: hot_world_def server_defs fixture_defs)

lemma hot_world_sub: "sub_sender (substore hot_world 0) = 7" "\<not> sub_closed (substore hot_world 0)"
  by (simp_all add: hot_world_def server_defs fixture_defs)

lemma hot_world_outbox: "outbox hot_world = [(7, ''corr1'', Result (Prim JUndefined))]"
  by (simp add: hot_world_def server_defs fixture_defs)

subsection \<open>Keys that are not inherited names\<close>

lemma registerProxy_on_own_channels:
  "((\<exists>h. registrations w (channel d) = Some (Some h)) \<longrightarrow>
      registerProxy tr tgt d w =
        (Inl (JsError ''Error''
               (''Proxy object has already been registered on channel '' @ channel d)), w))
   \<and> (\<not> inherited (channel d) \<and>
        (registrations w (channel d) = None \<or> registrations w (channel d) = Some None) \<longrightarrow>
      fst (registerProxy tr tgt d w) = Inr (UnregisterFn (channel d) tr)
      \<and> registrations (snd (registerProxy tr tgt d w)) =
          (registrations w)(channel d := Some (Some (next_handler w)))
      \<and> handlers (snd (registerProxy tr tgt d w)) (next_handler w) =
          \<lparr>target = tgt, subscriptions = []\<rparr>
      \<and> listeners (snd (registerProxy tr tgt d w)) tr (channel d) =
          listeners w tr (channel d) @ [next_handler w])"
  by (auto simp: registerProxy_def registered_def Let_def split: option.splits)

lemma unsubscribe_request_on_own_ids:
  "(\<not> inherited sid \<and> entry w h sid = None \<longrightarrow>
      handleRequest h (Unsubscribe sid) sender w =
        (Failed (JsError ''Error'' (''Subscription with Id ['' @ sid @ ''] does not exist'')), w))
   \<and> (entry w h sid = Some r \<longrightarrow>
      fst (handleRequest h (Unsubscribe sid) sender w) = Fulfilled (Prim JUndefined)
      \<and> unsubscribe_calls (substore (snd (handleRequest h (Unsubscribe sid) sender w)) r) =
          Suc (unsubscribe_calls (substore w r))
      \<and> sub_closed (substore (snd (handleRequest h (Unsubscribe sid) sender w)) r)
      \<and> entry (snd (handleRequest h (Unsubscribe sid) sender w)) h sid = None)"
proof (intro conjI impI)
  assume "\<not> inherited sid \<and> entry w h sid = None"
  then show "handleRequest h (Unsubscribe sid) sender w =
        (Failed (JsError ''Error'' (''Subscription with Id ['' @ sid @ ''] does not exist'')), w)"
    by (simp add: handleUnsubscribe_def subscription_at_def)
next
  assume present: "entry w h sid = Some r"
  obtain w' where d: "doUnsubscribe h sid w = (Inr (), w')"
    using doUnsubscribe_held(1) [OF present] by (cases "doUnsubscribe h sid w") simp
  have w': "w' = snd (doUnsubscribe h sid w)"
    using d by simp
  have hr: "handleRequest h (Unsubscribe sid) sender w = (Fulfilled (Prim JUndefined), w')"
    using present by (simp add: handleUnsubscribe_def subscription_at_def d)
  show "fst (handleRequest h (Unsubscribe sid) sender w) = Fulfilled (Prim JUndefined)"
    unfolding hr by simp
  show "unsubscribe_calls (substore (snd (handleRequest h (Unsubscribe sid) sender w)) r) =
          Suc (unsubscribe_calls (substore w r))"
    unfolding hr using present by (simp add: w' doUnsubscribe_held)
  show "sub_closed (substore (snd (handleRequest h (Unsubscribe sid) sender w)) r)"
    unfolding hr using present by (simp add: w' doUnsubscribe_held)
  show "entry (snd (handleRequest h (Unsubscribe sid) sender w)) h sid = None"
    unfolding hr by (simp add: w' doUnsubscribe_entry)
qed

section \<open>Registration\<close>

text \<open>
  Claim C6, evaluated on the code: in the initial state no channel is registered, yet a
  registration on the channel \<^verbatim>\<open>constructor\<close> fails with the
  duplicate-registration error and changes nothing, because the lookup in the plain
  registration object finds the member inherited from \<^verbatim>\<open>Object.prototype\<close>.
  (Lemma \<open>registerProxy_on_own_channels\<close> above shows both halves of the claim for every
  channel that is not such a name.)
\<close>

theorem registerProxy_inherited_channel:
  "registrations init_world ''constructor'' = None
   \<and> registerProxy 0 ProxiedClass \<lparr>channel = ''constructor'', properties = []\<rparr> init_world =
       (Inl (JsError ''Error''
              ''Proxy object has already been registered on channel constructor''),
        init_world)"
  by (simp add: registerProxy_def registered_def inherited_def object_prototype_names_def
      init_world_def)

text \<open>
  Claim C10. Unregistering a registered channel stores a null entry under the channel (the
  key stays), and a registration on the same channel in the resulting state succeeds and
  binds a new handler to the new target.
\<close>

theorem channel_reusable_after_unregister:
  assumes "registrations w (channel d) = Some (Some h)"
  shows "fst (unregisterProxy (channel d) tr w) = Inr ()
    \<and> registrations (snd (unregisterProxy (channel d) tr w)) (channel d) = Some None
    \<and> fst (registerProxy tr' tgt d (snd (unregisterProxy (channel d) tr w))) =
        Inr (UnregisterFn (channel d) tr')
    \<and> registrations (snd (registerProxy tr' tgt d (snd (unregisterProxy (channel d) tr w))))
        (channel d) = Some (Some (next_handler w))
    \<and> target (handlers (snd (registerProxy tr' tgt d (snd (unregisterProxy (channel d) tr w))))
        (next_handler w)) = tgt"
  using assms
  by (simp add: unregisterProxy_def registerProxy_def registered_def Let_def unsubscribeAll_def
      fold_rx_unsubscribe_fields)

theorem channel_reusable_after_unregister_witness:
  "registrations (snd (registerProxy 0 ProxiedClass test_descriptor init_world))
      (channel test_descriptor) = Some (Some 0)
   \<and> fst (unregisterProxy (channel test_descriptor) 0
         (snd (registerProxy 0 ProxiedClass test_descriptor init_world))) = Inr ()
   \<and> fst (registerProxy 0 Map.empty test_descriptor
         (snd (unregisterProxy (channel test_descriptor) 0
            (snd (registerProxy 0 ProxiedClass test_descriptor init_world))))) =
        Inr (UnregisterFn (channel test_descriptor) 0)"
proof -
  let ?w1 = "snd (registerProxy 0 ProxiedClass test_descriptor init_world)"
  have reg: "registrations ?w1 (channel test_descriptor) = Some (Some 0)"
    by (simp add: registerProxy_def registered_def Let_def init_world_def test_descriptor_def
        inherited_def object_prototype_names_def)
  show ?thesis
    using channel_reusable_after_unregister [OF reg, of 0 0 Map.empty] reg by blast
qed

text \<open>
  Claim C5. The function returned by a successful registration, one made in a state reached
  from the initial one, invoked in any later state: when the channel's entry holds a handler,
  it succeeds, leaves no listener on the channel of the transport, closes every subscription
  in that handler's table, empties the table and stores null under the channel; when the
  channel's entry is absent or null, it fails with the not-registered error.
\<close>

theorem unregister_fn_effect:
  assumes "w0 = run es init_world"
    and "registerProxy tr tgt d w0 = (Inr u, w1)"
  shows "(registrations w (channel d) = Some (Some h) \<longrightarrow>
      fst (invoke u w) = Inr ()
      \<and> listeners (snd (invoke u w)) tr (channel d) = []
      \<and> (\<forall>kv \<in> set (subscriptions (handlers w h)).
           sub_closed (substore (snd (invoke u w)) (snd kv)))
      \<and> subscriptions (handlers (snd (invoke u w)) h) = []
      \<and> registrations (snd (invoke u w)) (channel d) = Some None)
   \<and> (registrations w (channel d) = None \<or> registrations w (channel d) = Some None \<longrightarrow>
      fst (invoke u w) =
        Inl (JsError ''Error'' (''No proxy is registered on channel '' @ channel d)))"
proof -
  have u: "u = UnregisterFn (channel d) tr"
    using assms(2) by (auto simp: registerProxy_def Let_def split: if_splits)
  have "registry_inv w0"
    using assms(1) reachable_registry_inv by simp
  then have own: "\<not> inherited (channel d)"
    using assms(2) registered_channel_not_inherited [of w0 tr tgt d u] by simp
  show ?thesis
    unfolding u using own
    by (auto simp: unregisterProxy_def registered_def Let_def unsubscribeAll_def
        fold_rx_unsubscribe_fields fold_rx_unsubscribe_closes)
qed

theorem unregister_fn_effect_witness:
  "registrations (snd (registerProxy 0 ProxiedClass test_descriptor init_world))
      (channel test_descriptor) = Some (Some 0)
   \<and> fst (invoke (UnregisterFn ''channelName'' 0)
         (snd (registerProxy 0 ProxiedClass test_descriptor init_world))) = Inr ()
   \<and> registrations init_world (channel test_descriptor) = None
   \<and> fst (invoke (UnregisterFn ''channelName'' 0) init_world) =
        Inl (JsError ''Error'' (''No proxy is registered on channel '' @ channel test_descriptor))"
proof -
  let ?w1 = "snd (registerProxy 0 ProxiedClass test_descriptor init_world)"
  have start: "init_world = run [] init_world"
    by (simp add: run_def)
  have reg: "registrations ?w1 (channel test_descriptor) = Some (Some 0)"
    by (simp add: registerProxy_def registered_def Let_def init_world_def test_descriptor_def
        inherited_def object_prototype_names_def)
  have unreg: "registrations init_world (channel test_descriptor) = None"
    by (simp add: init_world_def)
  have call: "registerProxy 0 ProxiedClass test_descriptor init_world =
      (Inr (UnregisterFn ''channelName'' 0), ?w1)"
    by (simp add: registerProxy_def registered_def Let_def init_world_def test_descriptor_def
        inherited_def object_prototype_names_def)
  show ?thesis
    using unregister_fn_effect [OF start call, of ?w1 0]
      unregister_fn_effect [OF start call, of init_world 0] reg unreg by blast
qed

section \<open>Requests\<close>

text \<open>
  Claim C9. A request whose type is none of Get, Apply, Subscribe and Unsubscribe makes
  \<open>handleRequest\<close> fail with the error \<^verbatim>\<open>Unhandled RequestType [type]\<close>, and the channel
  listener sends that error, serialized, to the sender as an Error response on the
  correlation id.
\<close>

theorem unhandled_request_type_answered:
  "handleRequest h (Other ty) sender w =
     (Failed (JsError ''Error'' (''Unhandled RequestType ['' @ ty @ '']'')), w)
   \<and> listener h sender (Other ty) correlationId w =
     w\<lparr>outbox := outbox w @ [(sender, correlationId,
         Error (Errio_stringify (JsError ''Error'' (''Unhandled RequestType ['' @ ty @ '']''))))]\<rparr>"
  by (simp add: listener_def send_def)

text \<open>
  Claim C3, evaluated on the code: an Apply request for \<^verbatim>\<open>missingFunction\<close>, which the
  target does not have, is answered with an Error response whose message is
  \<^verbatim>\<open>Property [missingFunction] is not a function\<close>, without the prefix
  \<^verbatim>\<open>Remote\<close> that the test expects.
\<close>

theorem apply_missing_function_message:
  "outbox (run [Register 0 ProxiedClass test_descriptor,
                IpcMessage 0 ''channelName'' 7 (Apply ''missingFunction'' []) ''corr1'']
             init_world) =
     [(7, ''corr1'',
       Error (Serialized (JsError ''Error'' ''Property [missingFunction] is not a function'')))]"
  by (simp add: server_defs fixture_defs)

text \<open>
  Claim C2, evaluated on the code: an Apply request for \<^verbatim>\<open>returnStringMember\<close>, a
  method that reads \<^verbatim>\<open>this.stringMemberSync\<close>, is answered with an Error response
  carrying a TypeError, since the function is called without a receiver; the same method
  called directly on the target returns \<^verbatim>\<open>a string\<close>.
\<close>

theorem apply_loses_receiver:
  "outbox (run [Register 0 ProxiedClass test_descriptor,
                IpcMessage 0 ''channelName'' 7 (Apply ''returnStringMember'' []) ''corr1'']
             init_world) =
     [(7, ''corr1'',
       Error (Serialized
         (JsError ''TypeError''
            ''Cannot read properties of undefined (reading 'stringMemberSync')'')))]
   \<and> direct_call ProxiedClass ''returnStringMember'' [] = Some (Inr (Prim (JStr ''a string'')))"
  by (simp add: server_defs fixture_defs direct_call_def state_of_def)

text \<open>
  Claim C1, evaluated on the code: a Subscribe request with args [1, 2] for
  \<^verbatim>\<open>makeObservable\<close>, a function returning a stream of its arguments, is answered
  with the error \<^verbatim>\<open>Property [makeObservable] is not an observable\<close>: the member is tested for
  stream shape as it is and never invoked, and no subscription is opened, although invoking
  it with the args gives a stream.
\<close>

theorem subscribe_ignores_args:
  "outbox (run [Register 0 ProxiedClass test_descriptor,
                IpcMessage 0 ''channelName'' 7
                  (Subscribe ''makeObservable'' (Some [JNum 1, JNum 2]) ''sub1'') ''corr1'']
             init_world) =
     [(7, ''corr1'',
       Error (Serialized (JsError ''Error'' ''Property [makeObservable] is not an observable'')))]
   \<and> subscriptions (handlers (run [Register 0 ProxiedClass test_descriptor,
                IpcMessage 0 ''channelName'' 7
                  (Subscribe ''makeObservable'' (Some [JNum 1, JNum 2]) ''sub1'') ''corr1'']
             init_world) 0) = []
   \<and> direct_call ProxiedClass ''makeObservable'' [JNum 1, JNum 2] =
       Some (Inr (ObsV (Observable [NNext (JNum 1), NNext (JNum 2), NComplete])))"
  by (simp add: server_defs fixture_defs direct_call_def state_of_def)

section \<open>Subscriptions\<close>

text \<open>
  Claim C8, evaluated on the code: an Unsubscribe request for the id
  \<^verbatim>\<open>constructor\<close>, which is absent from the handler's empty subscription table, is
  not answered with the subscription-not-found error: the lookup finds the member inherited
  from \<^verbatim>\<open>Object.prototype\<close>, \<open>doUnsubscribe\<close> calls
  \<^verbatim>\<open>unsubscribe\<close> on it, and the reply is an Error response carrying a TypeError. The
  table stays unchanged. (Lemma \<open>unsubscribe_request_on_own_ids\<close> above shows the claim
  for every id that is not such a name.)
\<close>

theorem unsubscribe_inherited_id:
  "outbox (run [Register 0 ProxiedClass test_descriptor,
                IpcMessage 0 ''channelName'' 7 (Unsubscribe ''constructor'') ''corr1'']
             init_world) =
     [(7, ''corr1'',
       Error (Serialized
         (JsError ''TypeError'' ''subscription.unsubscribe is not a function'')))]
   \<and> subscriptions (handlers (run [Register 0 ProxiedClass test_descriptor,
                IpcMessage 0 ''channelName'' 7 (Unsubscribe ''constructor'') ''corr1'']
             init_world) 0) = []
   \<and> subscriptions (handlers (run [Register 0 ProxiedClass test_descriptor] init_world) 0) = []"
  by (simp add: server_defs fixture_defs)

text \<open>
  Claim C7. In every state reached from the initial one, for an entry of a subscription
  table whose Subscription was opened by sender \<open>s\<close>: when \<open>s\<close> emits its destroyed
  signal, the Subscription is closed, the entry is removed, and nothing is sent; and in every
  state reached afterwards a notification of that stream changes nothing, so neither an
  Error nor a Complete message is sent for it any more.
\<close>

theorem destroyed_sender_silent_cancel:
  assumes "w = run es init_world"
    and "entry w h sid = Some r"
    and "sub_sender (substore w r) = s"
  shows "sub_closed (substore (step (SenderDestroyed s) w) r)
    \<and> entry (step (SenderDestroyed s) w) h sid = None
    \<and> outbox (step (SenderDestroyed s) w) = outbox w
    \<and> step (StreamEmits r n) (run es' (step (SenderDestroyed s) w)) =
        run es' (step (SenderDestroyed s) w)"
proof -
  let ?w' = "step (SenderDestroyed s) w"
  have inv: "table_inv w"
    using assms(1) reachable_inv by simp
  with assms(2,3) have alloc: "r < next_sub w" and cb: "(h, sid) \<in> set (once_destroyed w s)"
    by (auto simp: table_inv_def)
  have cbs: "\<forall>cb \<in> set (once_destroyed w s). \<not> inherited (snd cb)"
    using inv by (auto simp: table_inv_def)
  have closed: "sub_closed (substore ?w' r)"
    using run_destroyed_closes [OF cbs assms(2) cb] by (simp add: sender_destroyed_world)
  have gone: "entry ?w' h sid = None"
    using cb by (simp add: sender_destroyed_world run_destroyed_entry [OF cbs])
  have quiet: "outbox ?w' = outbox w"
    by (simp add: sender_destroyed_world run_destroyed_fields)
  have inv': "table_inv ?w'"
    using inv by (simp add: table_inv_sender_destroyed)
  have alloc': "r < next_sub ?w'"
    using alloc by (simp add: sender_destroyed_world run_destroyed_fields)
  have "evolves ?w' (run es' ?w')"
    using run_inv [OF inv'] by simp
  with alloc' closed have "sub_closed (substore (run es' ?w') r)"
    by (simp add: evolves_def)
  then have later: "step (StreamEmits r n) (run es' ?w') = run es' ?w'"
    by (simp add: rx_notify_closed)
  show ?thesis
    using closed gone quiet later by simp
qed

theorem destroyed_sender_silent_cancel_witness:
  "entry hot_world 0 ''sub1'' = Some 0
   \<and> sub_sender (substore hot_world 0) = 7
   \<and> sub_closed (substore (step (SenderDestroyed 7) hot_world) 0)
   \<and> entry (step (SenderDestroyed 7) hot_world) 0 ''sub1'' = None
   \<and> outbox (step (SenderDestroyed 7) hot_world) = [(7, ''corr1'', Result (Prim JUndefined))]
   \<and> outbox (step (StreamEmits 0 NComplete) (step (SenderDestroyed 7) hot_world)) =
       [(7, ''corr1'', Result (Prim JUndefined))]"
proof -
  have c: "sub_closed (substore (step (SenderDestroyed 7) hot_world) 0)
    \<and> entry (step (SenderDestroyed 7) hot_world) 0 ''sub1'' = None
    \<and> outbox (step (SenderDestroyed 7) hot_world) = outbox hot_world
    \<and> step (StreamEmits 0 NComplete) (run [] (step (SenderDestroyed 7) hot_world)) =
        run [] (step (SenderDestroyed 7) hot_world)"
    using destroyed_sender_silent_cancel
      [OF hot_world_def hot_world_entry hot_world_sub(1), of NComplete "[]"] .
  have r: "run [] (step (SenderDestroyed 7) hot_world) = step (SenderDestroyed 7) hot_world"
    by (simp add: run_def)
  show ?thesis
    using c hot_world_entry hot_world_sub(1) hot_world_outbox unfolding r by simp
qed

text \<open>
  Claim C4 as stated fails: after the stream of the open subscription \<^verbatim>\<open>sub1\<close>
  completes, or fails with an error, the Complete or Error message is sent and the entry for
  \<^verbatim>\<open>sub1\<close> is still in the subscription table.
\<close>

theorem native_termination_entry_stays:
  "outbox (run [Register 0 ProxiedClass test_descriptor,
        IpcMessage 0 ''channelName'' 7 (Subscribe ''observableHot'' None ''sub1'') ''corr1'',
        StreamEmits 0 NComplete] init_world)
     = [(7, ''corr1'', Result (Prim JUndefined)), (7, ''sub1'', Complete)]
   \<and> entry (run [Register 0 ProxiedClass test_descriptor,
        IpcMessage 0 ''channelName'' 7 (Subscribe ''observableHot'' None ''sub1'') ''corr1'',
        StreamEmits 0 NComplete] init_world) 0 ''sub1'' = Some 0
   \<and> outbox (run [Register 0 ProxiedClass test_descriptor,
        IpcMessage 0 ''channelName'' 7 (Subscribe ''observableHot'' None ''sub1'') ''corr1'',
        StreamEmits 0 (NError (JsError ''Error'' ''error on stream''))] init_world)
     = [(7, ''corr1'', Result (Prim JUndefined)),
        (7, ''sub1'', Error (Serialized (JsError ''Error'' ''error on stream'')))]
   \<and> entry (run [Register 0 ProxiedClass test_descriptor,
        IpcMessage 0 ''channelName'' 7 (Subscribe ''observableHot'' None ''sub1'') ''corr1'',
        StreamEmits 0 (NError (JsError ''Error'' ''error on stream''))] init_world) 0 ''sub1''
     = Some 0"
  by (simp add: server_defs fixture_defs)

text \<open>
  Claim C4, amended. In every state reached from the initial one, for an entry of a
  subscription table whose Subscription is still open: a terminal error of its stream sends
  an Error message with the serialized error, and a completion sends a Complete message, to
  the Subscription's sender on the entry's id; no notification changes any subscription
  table, so the entry stays.
\<close>

theorem native_termination_leaves_table:
  assumes "w = run es init_world"
    and "entry w h sid = Some r"
    and "\<not> sub_closed (substore w r)"
  shows "outbox (step (StreamEmits r (NError e)) w) =
        outbox w @ [(sub_sender (substore w r), sid, Error (Errio_stringify e))]
    \<and> outbox (step (StreamEmits r NComplete) w) =
        outbox w @ [(sub_sender (substore w r), sid, Complete)]
    \<and> handlers (step (StreamEmits r n) w) = handlers w
    \<and> entry (step (StreamEmits r n) w) h sid = Some r"
proof -
  have inv: "table_inv w"
    using assms(1) reachable_inv by simp
  with assms(2) have alloc: "r < next_sub w" and addr: "sub_address (substore w r) = sid"
    by (auto simp: table_inv_def)
  have h: "handlers (step (StreamEmits r n) w) = handlers w"
    by (simp add: rx_notify_fields)
  show ?thesis
    using alloc addr assms(2,3) h
    by (simp add: rx_notify_def Let_def send_def)
qed

theorem native_termination_leaves_table_witness:
  "entry hot_world 0 ''sub1'' = Some 0
   \<and> \<not> sub_closed (substore hot_world 0)
   \<and> outbox (step (StreamEmits 0 NComplete) hot_world) =
       [(7, ''corr1'', Result (Prim JUndefined)), (7, ''sub1'', Complete)]
   \<and> entry (step (StreamEmits 0 NComplete) hot_world) 0 ''sub1'' = Some 0"
proof -
  have c: "outbox (step (StreamEmits 0 NComplete) hot_world) =
        outbox hot_world @ [(sub_sender (substore hot_world 0), ''sub1'', Complete)]
    \<and> entry (step (StreamEmits 0 NComplete) hot_world) 0 ''sub1'' = Some 0"
    using native_termination_leaves_table
      [OF hot_world_def hot_world_entry hot_world_sub(2), where n = NComplete]
    by blast
  show ?thesis
    using c hot_world_entry hot_world_sub hot_world_outbox by simp
qed

end
